theory Spec2Isabelle
  imports Complex_Main
begin

section \<open>The Connect4 front end: boards, win detection and the game hook\<close>

text \<open>
  The definitions below embed the React hook \<open>useConnect4\<close> and the helpers it is built
  from (\<open>createEmptyBoard\<close>, \<open>convertBoard\<close>, \<open>findWinningCells\<close>, \<open>initGame\<close>,
  \<open>makeMove\<close>, \<open>resetGame\<close>) together with the \<open>disabled\<close> flag the board component
  gives each drop button. JavaScript specifics that matter are written out: reading an
  index past the end of an array yields \<open>undefined\<close>, reading an index of \<open>undefined\<close>
  throws a \<open>TypeError\<close>, \<open>&&\<close> and \<open>||\<close> short-circuit, and an empty string is falsy.
\<close>

subsection \<open>Data model\<close>

text \<open>\<open>type Cell = null | "player" | "ai"\<close>: \<open>None\<close> is \<open>null\<close>.\<close>

datatype piece = Player | Ai

type_synonym cell = "piece option"

type_synonym Board = "cell list list"

datatype GameStatus = Playing | Won | Lost | Draw | Connecting | ErrorStatus

definition ROWS :: nat where
  "ROWS = 6"

definition COLS :: nat where
  "COLS = 7"

text \<open>Values a \<open>catch\<close> clause can receive from the code modelled here.\<close>

datatype js_error = TypeError

text \<open>
  \<open>xs[i]\<close> on an array: the element, or \<open>undefined\<close> (\<open>None\<close>) when \<open>i\<close> is not an
  index of \<open>xs\<close>. Indices are natural numbers here; a negative or fractional number is
  no index of an array either and reads as \<open>undefined\<close> like an index past the end.
\<close>

definition jsIndex :: "'a list \<Rightarrow> nat \<Rightarrow> 'a option" where
  "jsIndex xs i = (if i < length xs then Some (xs ! i) else None)"

text \<open>
  \<open>board[row][col]\<close>: throws when \<open>board[row]\<close> is \<open>undefined\<close>; otherwise the cell
  (\<open>Some\<close>) or \<open>undefined\<close> (\<open>None\<close>).
\<close>

definition cellAt :: "Board \<Rightarrow> nat \<Rightarrow> nat \<Rightarrow> js_error + cell option" where
  "cellAt board row col =
     (case jsIndex board row of
        None \<Rightarrow> Inl TypeError
      | Some r \<Rightarrow> Inr (jsIndex r col))"

subsection \<open>createEmptyBoard and convertBoard\<close>

text \<open>\<open>Array(ROWS).fill(null).map(() => Array(COLS).fill(null))\<close>\<close>

definition createEmptyBoard :: Board where
  "createEmptyBoard = map (\<lambda>_. replicate COLS None) (replicate ROWS (None :: cell))"

text \<open>
  The callback of the inner \<open>map\<close> of \<open>convertBoard\<close>; the cells of the API board and
  the player numbers are the integers of the JSON body.
\<close>

definition convertCell :: "int \<Rightarrow> int \<Rightarrow> cell" where
  "convertCell humanPlayer c =
     (if c = 0 then None
      else if c = humanPlayer then Some Player
      else Some Ai)"

definition convertBoard :: "int list list \<Rightarrow> int \<Rightarrow> Board" where
  "convertBoard apiBoard humanPlayer = map (\<lambda>row. map (convertCell humanPlayer) row) apiBoard"

subsection \<open>findWinningCells\<close>

type_synonym coord = "nat \<times> nat"

text \<open>
  The condition of each \<open>if\<close> in \<open>findWinningCells\<close> is a chain
  \<open>board[r0][c0] === winner && ... && board[r3][c3] === winner\<close>, evaluated left to right
  and stopping at the first cell that differs; a read of a missing row throws.
\<close>

fun allWinner :: "Board \<Rightarrow> cell \<Rightarrow> coord list \<Rightarrow> js_error + bool" where
  "allWinner board winner [] = Inr True"
| "allWinner board winner ((r, c) # rest) =
     (case cellAt board r c of
        Inl e \<Rightarrow> Inl e
      | Inr v \<Rightarrow> if v = Some winner then allWinner board winner rest else Inr False)"

text \<open>
  A pair of nested \<open>for\<close> loops visits its candidate lines in order and returns the first
  one whose four cells all hold \<open>winner\<close>; \<open>Inr None\<close> means the loops ran to their end.
\<close>

fun scanLines :: "Board \<Rightarrow> cell \<Rightarrow> coord list list \<Rightarrow> js_error + coord list option" where
  "scanLines board winner [] = Inr None"
| "scanLines board winner (line # rest) =
     (case allWinner board winner line of
        Inl e \<Rightarrow> Inl e
      | Inr True \<Rightarrow> Inr (Some line)
      | Inr False \<Rightarrow> scanLines board winner rest)"

text \<open>The lines each loop nest visits, outer loop over \<open>row\<close>, inner loop over \<open>col\<close>.\<close>

definition horizontalLines :: "coord list list" where
  "horizontalLines =
     concat (map (\<lambda>row. map (\<lambda>col. [(row, col), (row, col + 1), (row, col + 2), (row, col + 3)])
                           [0..<COLS - 3])
                 [0..<ROWS])"

definition verticalLines :: "coord list list" where
  "verticalLines =
     concat (map (\<lambda>row. map (\<lambda>col. [(row, col), (row + 1, col), (row + 2, col), (row + 3, col)])
                           [0..<COLS])
                 [0..<ROWS - 3])"

definition downRightLines :: "coord list list" where
  "downRightLines =
     concat (map (\<lambda>row. map (\<lambda>col. [(row, col), (row + 1, col + 1), (row + 2, col + 2),
                                      (row + 3, col + 3)])
                           [0..<COLS - 3])
                 [0..<ROWS - 3])"

definition upRightLines :: "coord list list" where
  "upRightLines =
     concat (map (\<lambda>row. map (\<lambda>col. [(row, col), (row - 1, col + 1), (row - 2, col + 2),
                                      (row - 3, col + 3)])
                           [0..<COLS - 3])
                 [3..<ROWS])"

definition findWinningCells :: "Board \<Rightarrow> cell \<Rightarrow> js_error + coord list" where
  "findWinningCells board winner =
     (if winner = None then Inr []
      else case scanLines board winner horizontalLines of
        Inl e \<Rightarrow> Inl e
      | Inr (Some line) \<Rightarrow> Inr line
      | Inr None \<Rightarrow>
     (case scanLines board winner verticalLines of
        Inl e \<Rightarrow> Inl e
      | Inr (Some line) \<Rightarrow> Inr line
      | Inr None \<Rightarrow>
     (case scanLines board winner downRightLines of
        Inl e \<Rightarrow> Inl e
      | Inr (Some line) \<Rightarrow> Inr line
      | Inr None \<Rightarrow>
     (case scanLines board winner upRightLines of
        Inl e \<Rightarrow> Inl e
      | Inr (Some line) \<Rightarrow> Inr line
      | Inr None \<Rightarrow> Inr []))))"

subsection \<open>The state of the hook\<close>

text \<open>
  \<open>Connect4State\<close> holds the seven \<open>useState\<close> cells; \<open>HookState\<close> adds the session
  data kept in \<open>sessionRef\<close> (fields \<open>ref_...\<close>, for \<open>session_id\<close>, \<open>human_player\<close>
  and \<open>ai_player\<close> of the ref).
\<close>

record Connect4State =
  board :: Board
  currentTurn :: piece
  status :: GameStatus
  winningCells :: "coord list"
  isThinking :: bool
  errorMessage :: "string option"
  aiFirst :: bool

record HookState = Connect4State +
  ref_session_id :: "string option"
  ref_human_player :: int
  ref_ai_player :: int

text \<open>
  \<open>GameStateResponse\<close>, the JSON body of both endpoints (\<open>api_board\<close> is its field
  \<open>board\<close>; \<open>winner\<close> is \<open>number | null\<close>).
\<close>

record GameStateResponse =
  session_id :: string
  api_board :: "int list list"
  ai_player :: int
  human_player :: int
  current_player :: int
  game_over :: bool
  winner :: "int option"

text \<open>
  What the network gives back to one \<open>fetch\<close> and the reads of its body:
  \<^item> \<open>FetchRejected m\<close>: \<open>fetch\<close> rejects with an \<open>Error\<close> whose message is \<open>m\<close>;
  \<^item> \<open>FetchRejectedOther\<close>: it rejects with a value that is not an \<open>Error\<close>;
  \<^item> \<open>NotOk detail statusText\<close>: a response with \<open>ok = false\<close>; \<open>detail\<close> is the
    \<open>detail\<close> field of its JSON body as text, \<open>None\<close> when the body has none or does
    not parse;
  \<^item> \<open>OkBody data\<close>: a response with \<open>ok = true\<close> and body \<open>data\<close>;
  \<^item> \<open>OkUnreadable m\<close>: a response with \<open>ok = true\<close> whose \<open>json()\<close> rejects with an
    \<open>Error\<close> of message \<open>m\<close>.
\<close>

datatype FetchOutcome =
    FetchRejected string
  | FetchRejectedOther
  | NotOk "string option" string
  | OkBody GameStateResponse
  | OkUnreadable string

text \<open>The text of \<open>error.message\<close> for a \<open>TypeError\<close> raised by a read of \<open>undefined\<close>.\<close>

definition typeErrorMessage :: string where
  "typeErrorMessage = ''Cannot read properties of undefined''"

text \<open>\<open>errorData.detail || `Move failed: ${response.statusText}`\<close>: an empty \<open>detail\<close> is falsy.\<close>

definition moveFailureMessage :: "string option \<Rightarrow> string \<Rightarrow> string" where
  "moveFailureMessage detail statusText =
     (case detail of
        None \<Rightarrow> ''Move failed: '' @ statusText
      | Some d \<Rightarrow> if d = [] then ''Move failed: '' @ statusText else d)"

subsection \<open>initGame and resetGame\<close>

text \<open>The six setter calls of \<open>initGame\<close> that precede its \<open>fetch\<close>.\<close>

definition initGame_begin :: "HookState \<Rightarrow> HookState" where
  "initGame_begin s =
     s\<lparr>status := Connecting,
       isThinking := True,
       errorMessage := None,
       board := createEmptyBoard,
       winningCells := [],
       aiFirst := False\<rparr>"

text \<open>The \<open>catch\<close> clause of \<open>initGame\<close>, given the message it shows.\<close>

definition initGame_catch :: "string \<Rightarrow> HookState \<Rightarrow> HookState" where
  "initGame_catch msg s =
     s\<lparr>status := ErrorStatus, errorMessage := Some msg, isThinking := False\<rparr>"

text \<open>\<open>data.board.some(row => row.some(cell => cell !== 0))\<close>\<close>

definition hasAIMoved :: "int list list \<Rightarrow> bool" where
  "hasAIMoved b = list_ex (\<lambda>row. list_ex (\<lambda>c. c \<noteq> 0) row) b"

text \<open>The \<open>try\<close> block of \<open>initGame\<close> from the answer of the \<open>fetch\<close> on, with its \<open>catch\<close>.\<close>

definition initGame_finish :: "FetchOutcome \<Rightarrow> HookState \<Rightarrow> HookState" where
  "initGame_finish net s =
     (case net of
        FetchRejected m \<Rightarrow> initGame_catch m s
      | FetchRejectedOther \<Rightarrow> initGame_catch ''Failed to connect to game server'' s
      | NotOk detail statusText \<Rightarrow> initGame_catch (''Failed to initialize game: '' @ statusText) s
      | OkUnreadable m \<Rightarrow> initGame_catch m s
      | OkBody data \<Rightarrow>
          s\<lparr>ref_session_id := Some (session_id data),
            ref_human_player := human_player data,
            ref_ai_player := ai_player data,
            board := convertBoard (api_board data) (human_player data),
            aiFirst := hasAIMoved (api_board data),
            currentTurn := (if current_player data = human_player data then Player else Ai),
            status := Playing,
            isThinking := False\<rparr>)"

text \<open>
  A run of \<open>initGame\<close>: \<open>at_request\<close> is the state when the \<open>fetch\<close> is issued,
  \<open>settled\<close> the state once the promise has settled.
\<close>

record InitRun =
  at_request :: HookState
  settled :: HookState

definition initGame :: "HookState \<Rightarrow> FetchOutcome \<Rightarrow> InitRun" where
  "initGame s net =
     \<lparr>at_request = initGame_begin s, settled = initGame_finish net (initGame_begin s)\<rparr>"

definition resetGame :: "HookState \<Rightarrow> FetchOutcome \<Rightarrow> InitRun" where
  "resetGame s net = initGame s net"

subsection \<open>makeMove\<close>

text \<open>The body of the request: \<open>{session_id, column}\<close>.\<close>

record MoveRequest =
  req_session_id :: string
  column :: nat

text \<open>The \<open>catch\<close> clause of \<open>makeMove\<close>, given the message it shows.\<close>

definition makeMove_catch :: "string \<Rightarrow> HookState \<Rightarrow> HookState" where
  "makeMove_catch msg s = s\<lparr>errorMessage := Some msg, isThinking := False\<rparr>"

text \<open>
  The part of the \<open>try\<close> block of \<open>makeMove\<close> that follows a well-read body. The setters
  called before \<open>findWinningCells\<close> throws keep their effect when the \<open>catch\<close> clause runs.
\<close>

definition makeMove_apply :: "GameStateResponse \<Rightarrow> HookState \<Rightarrow> HookState" where
  "makeMove_apply data s =
     (let uiBoard = convertBoard (api_board data) (human_player data);
          s1 = s\<lparr>board := uiBoard\<rparr>
      in if game_over data then
           if winner data = Some 3 then
             s1\<lparr>status := Draw, isThinking := False\<rparr>
           else if winner data = Some (human_player data) then
             (case findWinningCells uiBoard (Some Player) of
                Inl e \<Rightarrow> makeMove_catch typeErrorMessage (s1\<lparr>status := Won\<rparr>)
              | Inr cells \<Rightarrow> s1\<lparr>status := Won, winningCells := cells, isThinking := False\<rparr>)
           else
             (case findWinningCells uiBoard (Some Ai) of
                Inl e \<Rightarrow> makeMove_catch typeErrorMessage (s1\<lparr>status := Lost\<rparr>)
              | Inr cells \<Rightarrow> s1\<lparr>status := Lost, winningCells := cells, isThinking := False\<rparr>)
         else
           s1\<lparr>currentTurn := (if current_player data = human_player data then Player else Ai),
              isThinking := False\<rparr>)"

text \<open>The \<open>try\<close> block of \<open>makeMove\<close> from the answer of the \<open>fetch\<close> on, with its \<open>catch\<close>.\<close>

definition makeMove_finish :: "FetchOutcome \<Rightarrow> HookState \<Rightarrow> HookState" where
  "makeMove_finish net s =
     (case net of
        FetchRejected m \<Rightarrow> makeMove_catch m s
      | FetchRejectedOther \<Rightarrow> makeMove_catch ''Failed to make move'' s
      | NotOk detail statusText \<Rightarrow> makeMove_catch (moveFailureMessage detail statusText) s
      | OkUnreadable m \<Rightarrow> makeMove_catch m s
      | OkBody data \<Rightarrow> makeMove_apply data s)"

text \<open>
  A run of \<open>makeMove\<close>: \<open>thrown\<close> is the error the returned promise rejects with (a throw
  outside the \<open>try\<close> block), \<open>request\<close> the body sent to \<open>/game/move\<close> if a request was
  made, \<open>final\<close> the state at the end.
\<close>

record MoveRun =
  thrown :: "js_error option"
  request :: "MoveRequest option"
  final :: HookState

text \<open>
  \<open>sessionRef.current.session_id\<close> when it is truthy: \<open>null\<close> and the empty string
  are falsy.
\<close>

definition truthySession :: "HookState \<Rightarrow> string option" where
  "truthySession s =
     (case ref_session_id s of
        None \<Rightarrow> None
      | Some sid \<Rightarrow> if sid = [] then None else Some sid)"

definition makeMove :: "nat \<Rightarrow> HookState \<Rightarrow> FetchOutcome \<Rightarrow> MoveRun" where
  "makeMove col s net =
     (if status s \<noteq> Playing \<or> currentTurn s \<noteq> Player \<or> isThinking s then
        \<lparr>thrown = None, request = None, final = s\<rparr>
      else case truthySession s of
        None \<Rightarrow> \<lparr>thrown = None, request = None, final = s\<rparr>
      | Some sid \<Rightarrow>
     (case cellAt (board s) 0 col of
        Inl e \<Rightarrow> \<lparr>thrown = Some e, request = None, final = s\<rparr>
      | Inr topCell \<Rightarrow>
          if topCell \<noteq> Some None then \<lparr>thrown = None, request = None, final = s\<rparr>
          else
            \<lparr>thrown = None,
             request = Some \<lparr>req_session_id = sid, column = col\<rparr>,
             final = makeMove_finish net (s\<lparr>isThinking := True\<rparr>)\<rparr>))"

subsection \<open>The drop buttons of the board component\<close>

text \<open>
  \<open>Connect4Game\<close> passes \<open>disabled\<close> to \<open>GameBoard\<close>, which gives the button of column
  \<open>col\<close> the flag \<open>disabled || board[0][col] !== null\<close>.
\<close>

definition boardDisabled :: "HookState \<Rightarrow> bool" where
  "boardDisabled s = (status s \<noteq> Playing \<or> currentTurn s \<noteq> Player \<or> isThinking s)"

definition dropButtonDisabled :: "bool \<Rightarrow> Board \<Rightarrow> nat \<Rightarrow> js_error + bool" where
  "dropButtonDisabled disabled b col =
     (if disabled then Inr True
      else case cellAt b 0 col of
        Inl e \<Rightarrow> Inl e
      | Inr topCell \<Rightarrow> Inr (topCell \<noteq> Some None))"

subsection \<open>Four in a row, as the specification words it\<close>

text \<open>A UI board of six rows of seven cells.\<close>

definition is6x7 :: "Board \<Rightarrow> bool" where
  "is6x7 b = (length b = 6 \<and> list_all (\<lambda>row. length row = 7) b)"

text \<open>Cell \<open>(r, c)\<close> lies on the 6x7 grid and holds the piece \<open>p\<close>.\<close>

definition holdsPiece :: "Board \<Rightarrow> piece \<Rightarrow> int \<Rightarrow> int \<Rightarrow> bool" where
  "holdsPiece b p r c =
     (0 \<le> r \<and> r < 6 \<and> 0 \<le> c \<and> c < 7 \<and> cellAt b (nat r) (nat c) = Inr (Some (Some p)))"

text \<open>
  The steps along a horizontal line, a vertical line and the two diagonals, as
  (row step, column step).
\<close>

definition lineDirections :: "(int \<times> int) list" where
  "lineDirections = [(0, 1), (1, 0), (1, 1), (1, - 1)]"

text \<open>
  The board contains four consecutive cells equal to \<open>p\<close> along one of the four
  directions: this follows the wording of the specification, not the loops of the code.
\<close>

definition fourConsecutive :: "Board \<Rightarrow> piece \<Rightarrow> bool" where
  "fourConsecutive b p =
     (\<exists>r\<in>{0..<6}. \<exists>c\<in>{0..<7}. \<exists>(dr, dc)\<in>set lineDirections.
        \<forall>i\<in>{0..<4}. holdsPiece b p (r + i * dr) (c + i * dc))"

subsection \<open>The exploration schedule\<close>

text \<open>
  Modelled from the spec: the epsilon schedule of the exploration policy (section 4.3 of
  the specification, "Linear schedule"). The training code that computes it is not
  among the sources, which hold the front end only. The definition is the formula of the
  specification over the real numbers; \<open>t\<close> and \<open>decay_steps\<close> count training steps.
\<close>

definition epsilon :: "real \<Rightarrow> real \<Rightarrow> nat \<Rightarrow> nat \<Rightarrow> real" where
  "epsilon epsilon_start epsilon_end decay_steps t =
     max epsilon_end
         (epsilon_start - real t / real decay_steps * (epsilon_start - epsilon_end))"

subsection \<open>Auxiliary notions\<close>

text \<open>Every cell of a line reads as \<open>w\<close>; every row a line touches exists.\<close>

definition lineHolds :: "Board \<Rightarrow> cell \<Rightarrow> coord list \<Rightarrow> bool" where
  "lineHolds b w line = list_all (\<lambda>(r, c). cellAt b r c = Inr (Some w)) line"

definition rowsExist :: "Board \<Rightarrow> coord list \<Rightarrow> bool" where
  "rowsExist b line = list_all (\<lambda>(r, c). r < length b) line"

text \<open>All lines \<open>findWinningCells\<close> looks at, in the order it looks at them.\<close>

definition allLines :: "coord list list" where
  "allLines = horizontalLines @ verticalLines @ downRightLines @ upRightLines"

text \<open>A state in which the human player may move, on the empty board.\<close>

definition readyState :: HookState where
  "readyState =
     \<lparr>board = createEmptyBoard, currentTurn = Player, status = Playing, winningCells = [],
      isThinking = False, errorMessage = None, aiFirst = False,
      ref_session_id = Some ''s1'', ref_human_player = 1, ref_ai_player = 2\<rparr>"

text \<open>The request did not bring back a body that could be read.\<close>

definition requestFailed :: "FetchOutcome \<Rightarrow> bool" where
  "requestFailed net = (case net of OkBody data \<Rightarrow> False | _ \<Rightarrow> True)"

text \<open>A response of the backend that ends the game in a draw.\<close>

definition drawResponse :: GameStateResponse where
  "drawResponse =
     \<lparr>session_id = ''s1'', api_board = replicate 6 (replicate 7 2), ai_player = 2,
      human_player = 1, current_player = 1, game_over = True, winner = Some 3\<rparr>"

section \<open>Properties\<close>

subsection \<open>Lemmas on the scan for a winning line\<close>

lemma allWinner_rows:
  "rowsExist b line \<Longrightarrow> allWinner b w line = Inr (lineHolds b w line)"
  by (induction line) (auto simp: rowsExist_def lineHolds_def cellAt_def jsIndex_def split: option.splits)

lemma scanLines_rows:
  "list_all (rowsExist b) ls \<Longrightarrow> scanLines b w ls = Inr (find (lineHolds b w) ls)"
proof (induction ls)
  case Nil
  show ?case by simp
next
  case (Cons l ls)
  then have "allWinner b w l = Inr (lineHolds b w l)"
    by (simp add: allWinner_rows)
  with Cons show ?case
    by (cases "lineHolds b w l") simp_all
qed

lemma allWinner_True:
  "allWinner b w line = Inr True \<Longrightarrow> lineHolds b w line"
  by (induction line) (auto simp: lineHolds_def split: sum.splits if_splits)

lemma scanLines_Some:
  "scanLines b w ls = Inr (Some line) \<Longrightarrow> line \<in> set ls \<and> lineHolds b w line"
  by (induction ls) (auto split: sum.splits if_splits bool.splits dest: allWinner_True)

lemma horizontalLines_iff:
  "line \<in> set horizontalLines \<longleftrightarrow>
   (\<exists>row<6. \<exists>col<4. line = [(row, col), (row, col + 1), (row, col + 2), (row, col + 3)])"
  by (fastforce simp: horizontalLines_def ROWS_def COLS_def image_iff)

lemma verticalLines_iff:
  "line \<in> set verticalLines \<longleftrightarrow>
   (\<exists>row<3. \<exists>col<7. line = [(row, col), (row + 1, col), (row + 2, col), (row + 3, col)])"
  by (fastforce simp: verticalLines_def ROWS_def COLS_def image_iff)

lemma downRightLines_iff:
  "line \<in> set downRightLines \<longleftrightarrow>
   (\<exists>row<3. \<exists>col<4. line = [(row, col), (row + 1, col + 1), (row + 2, col + 2), (row + 3, col + 3)])"
  by (fastforce simp: downRightLines_def ROWS_def COLS_def image_iff)

lemma upRightLines_iff:
  "line \<in> set upRightLines \<longleftrightarrow>
   (\<exists>row. 3 \<le> row \<and> row < 6 \<and> (\<exists>col<4. line = [(row, col), (row - 1, col + 1), (row - 2, col + 2), (row - 3, col + 3)]))"
  by (fastforce simp: upRightLines_def ROWS_def COLS_def image_iff)

lemma allLines_shape:
  "line \<in> set allLines \<Longrightarrow> length line = 4 \<and> (\<forall>(r, c)\<in>set line. r < 6 \<and> c < 7)"
  unfolding allLines_def set_append Un_iff horizontalLines_iff verticalLines_iff
    downRightLines_iff upRightLines_iff
  by auto

lemma allLines_rows: "6 \<le> length b \<Longrightarrow> list_all (rowsExist b) allLines"
  unfolding list_all_iff rowsExist_def using allLines_shape by fastforce

lemma findWinningCells_returned:
  assumes "findWinningCells b w = Inr cs"
  shows "cs = [] \<or> (cs \<in> set allLines \<and> lineHolds b w cs)"
  using assms unfolding findWinningCells_def allLines_def
  by (auto split: if_splits sum.splits option.splits dest: scanLines_Some)

lemma find_app:
  "find P (xs @ ys) = (case find P xs of None \<Rightarrow> find P ys | Some x \<Rightarrow> Some x)"
  by (induction xs) simp_all

lemma findWinningCells_total:
  assumes "6 \<le> length b"
  shows "findWinningCells b (Some p) =
     Inr (case find (lineHolds b (Some p)) allLines of None \<Rightarrow> [] | Some line \<Rightarrow> line)"
proof -
  from allLines_rows[OF assms]
  have "list_all (rowsExist b) horizontalLines" "list_all (rowsExist b) verticalLines"
    "list_all (rowsExist b) downRightLines" "list_all (rowsExist b) upRightLines"
    by (simp_all add: allLines_def)
  then show ?thesis
    by (simp add: findWinningCells_def scanLines_rows allLines_def find_app split: option.splits)
qed


lemma four_steps:
  "(\<forall>i\<in>{0..<4::int}. holdsPiece b p (r + i * dr) (c + i * dc)) \<longleftrightarrow>
   holdsPiece b p r c \<and> holdsPiece b p (r + dr) (c + dc) \<and>
   holdsPiece b p (r + 2 * dr) (c + 2 * dc) \<and> holdsPiece b p (r + 3 * dr) (c + 3 * dc)"
proof -
  have "{0..<4::int} = {0, 1, 2, 3}" by auto
  then show ?thesis by simp
qed

lemma lineHolds4:
  "lineHolds b w [(r0, c0), (r1, c1), (r2, c2), (r3, c3)] \<longleftrightarrow>
   cellAt b r0 c0 = Inr (Some w) \<and> cellAt b r1 c1 = Inr (Some w) \<and>
   cellAt b r2 c2 = Inr (Some w) \<and> cellAt b r3 c3 = Inr (Some w)"
  by (simp add: lineHolds_def)

lemma fourConsecutiveI:
  assumes "(dr, dc) \<in> set lineDirections"
    and "holdsPiece b p r c" and "holdsPiece b p (r + dr) (c + dc)"
    and "holdsPiece b p (r + 2 * dr) (c + 2 * dc)" and "holdsPiece b p (r + 3 * dr) (c + 3 * dc)"
  shows "fourConsecutive b p"
proof -
  from assms(2) have "r \<in> {0..<6}" "c \<in> {0..<7}"
    by (simp_all add: holdsPiece_def)
  moreover from assms(2-5) have "\<forall>i\<in>{0..<4}. holdsPiece b p (r + i * dr) (c + i * dc)"
    by (simp only: four_steps)
  ultimately show ?thesis
    unfolding fourConsecutive_def using assms(1) by blast
qed

lemma fourConsecutiveD:
  assumes "fourConsecutive b p"
  shows "\<exists>r c dr dc. (dr, dc) \<in> set lineDirections \<and>
      holdsPiece b p r c \<and> holdsPiece b p (r + dr) (c + dc) \<and>
      holdsPiece b p (r + 2 * dr) (c + 2 * dc) \<and> holdsPiece b p (r + 3 * dr) (c + 3 * dc)"
proof -
  from assms obtain r c dr dc where "(dr, dc) \<in> set lineDirections"
    and "\<forall>i\<in>{0..<4}. holdsPiece b p (r + i * dr) (c + i * dc)"
    unfolding fourConsecutive_def by blast
  then show ?thesis
    by (simp only: four_steps) blast
qed

lemma lines_imp_four:
  assumes "line \<in> set allLines" and "lineHolds b (Some p) line"
  shows "fourConsecutive b p"
proof -
  from assms(1) consider
    (H) "line \<in> set horizontalLines" | (V) "line \<in> set verticalLines"
    | (D) "line \<in> set downRightLines" | (U) "line \<in> set upRightLines"
    by (auto simp: allLines_def)
  then show ?thesis
  proof cases
    case H
    then obtain row col where rc: "row < 6" "col < 4"
      and l: "line = [(row, col), (row, col + 1), (row, col + 2), (row, col + 3)]"
      by (auto simp: horizontalLines_iff)
    show ?thesis
      using assms(2) rc unfolding l lineHolds4
      by (intro fourConsecutiveI[of 0 1 b p "int row" "int col"])
         (simp_all add: lineDirections_def holdsPiece_def nat_add_distrib)
  next
    case V
    then obtain row col where rc: "row < 3" "col < 7"
      and l: "line = [(row, col), (row + 1, col), (row + 2, col), (row + 3, col)]"
      by (auto simp: verticalLines_iff)
    show ?thesis
      using assms(2) rc unfolding l lineHolds4
      by (intro fourConsecutiveI[of 1 0 b p "int row" "int col"])
         (simp_all add: lineDirections_def holdsPiece_def nat_add_distrib)
  next
    case D
    then obtain row col where rc: "row < 3" "col < 4"
      and l: "line = [(row, col), (row + 1, col + 1), (row + 2, col + 2), (row + 3, col + 3)]"
      by (auto simp: downRightLines_iff)
    show ?thesis
      using assms(2) rc unfolding l lineHolds4
      by (intro fourConsecutiveI[of 1 1 b p "int row" "int col"])
         (simp_all add: lineDirections_def holdsPiece_def nat_add_distrib)
  next
    case U
    then obtain row col where rc: "3 \<le> row" "row < 6" "col < 4"
      and l: "line = [(row, col), (row - 1, col + 1), (row - 2, col + 2), (row - 3, col + 3)]"
      by (auto simp: upRightLines_iff)
    have n: "nat (int row - 3) = row - 3" "nat (int row - 2) = row - 2"
      "nat (int row - 1) = row - Suc 0" "nat (int col + 3) = col + 3"
      "nat (2 + int col) = Suc (Suc col)" "nat (1 + int col) = Suc col"
      using rc by auto
    show ?thesis
      using assms(2) rc unfolding l lineHolds4
      by (intro fourConsecutiveI[of 1 "- 1" b p "int row - 3" "int col + 3"])
         (simp_all add: lineDirections_def holdsPiece_def n)
  qed
qed


lemma four_imp_lines:
  assumes "fourConsecutive b p"
  shows "\<exists>line\<in>set allLines. lineHolds b (Some p) line"
proof -
  from fourConsecutiveD[OF assms] obtain r c dr dc where
    d: "(dr, dc) \<in> set lineDirections"
    and h0: "holdsPiece b p r c" and h1: "holdsPiece b p (r + dr) (c + dc)"
    and h2: "holdsPiece b p (r + 2 * dr) (c + 2 * dc)"
    and h3: "holdsPiece b p (r + 3 * dr) (c + 3 * dc)"
    by blast
  from h0 obtain row col where r: "r = int row" and c: "c = int col"
    unfolding holdsPiece_def by (metis nat_0_le)
  from d consider (H) "dr = 0" "dc = 1" | (V) "dr = 1" "dc = 0"
    | (D) "dr = 1" "dc = 1" | (A) "dr = 1" "dc = - 1"
    by (auto simp: lineDirections_def)
  then show ?thesis
  proof cases
    case H
    let ?l = "[(row, col), (row, col + 1), (row, col + 2), (row, col + 3)]"
    have n: "nat (int col + 1) = col + 1" "nat (int col + 2) = col + 2"
      "nat (int col + 3) = col + 3" by auto
    from h0 h1 h2 h3 have "row < 6 \<and> col < 4 \<and> lineHolds b (Some p) ?l"
      unfolding H r c lineHolds4 holdsPiece_def by (simp add: n)
    then have "?l \<in> set allLines \<and> lineHolds b (Some p) ?l"
      by (auto simp: allLines_def horizontalLines_iff)
    then show ?thesis by blast
  next
    case V
    let ?l = "[(row, col), (row + 1, col), (row + 2, col), (row + 3, col)]"
    have n: "nat (int row + 1) = row + 1" "nat (int row + 2) = row + 2"
      "nat (int row + 3) = row + 3" by auto
    from h0 h1 h2 h3 have "row < 3 \<and> col < 7 \<and> lineHolds b (Some p) ?l"
      unfolding V r c lineHolds4 holdsPiece_def by (simp add: n)
    then have "?l \<in> set allLines \<and> lineHolds b (Some p) ?l"
      by (auto simp: allLines_def verticalLines_iff)
    then show ?thesis by blast
  next
    case D
    let ?l = "[(row, col), (row + 1, col + 1), (row + 2, col + 2), (row + 3, col + 3)]"
    have n: "nat (int row + 1) = row + 1" "nat (int row + 2) = row + 2"
      "nat (int row + 3) = row + 3" "nat (int col + 1) = col + 1" "nat (int col + 2) = col + 2"
      "nat (int col + 3) = col + 3" by auto
    from h0 h1 h2 h3 have "row < 3 \<and> col < 4 \<and> lineHolds b (Some p) ?l"
      unfolding D r c lineHolds4 holdsPiece_def by (simp add: n)
    then have "?l \<in> set allLines \<and> lineHolds b (Some p) ?l"
      by (auto simp: allLines_def downRightLines_iff)
    then show ?thesis by blast
  next
    case A
    let ?R = "row + 3" and ?C = "col - 3"
    let ?l = "[(?R, ?C), (?R - 1, ?C + 1), (?R - 2, ?C + 2), (?R - 3, ?C + 3)]"
    from h3 have c3: "3 \<le> col" unfolding A c holdsPiece_def by simp
    have n: "nat (int row + 1) = row + 1" "nat (int row + 2) = row + 2"
      "nat (int row + 3) = row + 3" "nat (int col - 1) = col - 1" "nat (int col - 2) = col - 2"
      "nat (int col - 3) = col - 3" by auto
    have m: "?R - 1 = row + 2" "?R - 2 = row + 1" "?R - 3 = row"
      "?C + 1 = col - 2" "?C + 2 = col - 1" "?C + 3 = col"
      using c3 by auto
    from h0 h1 h2 h3 c3 have "3 \<le> ?R \<and> ?R < 6 \<and> ?C < 4 \<and> lineHolds b (Some p) ?l"
      unfolding A r c lineHolds4 holdsPiece_def m by (auto simp: n)
    then have "?l \<in> set allLines \<and> lineHolds b (Some p) ?l"
      unfolding allLines_def set_append Un_iff upRightLines_iff by blast
    then show ?thesis by blast
  qed
qed

lemma fourConsecutive_iff_lines:
  "fourConsecutive b p \<longleftrightarrow> (\<exists>line\<in>set allLines. lineHolds b (Some p) line)"
  using four_imp_lines lines_imp_four by blast

lemma find_None_iff': "find P xs = None \<longleftrightarrow> \<not> (\<exists>x\<in>set xs. P x)"
  by (induction xs) auto

subsection \<open>Win detection\<close>

text \<open>
  Claim C1. On a board of six rows of seven cells and for a piece \<open>p\<close> (\<open>"player"\<close> or
  \<open>"ai"\<close>), \<open>findWinningCells\<close> returns, and what it returns is non-empty exactly when
  the board contains four consecutive cells equal to \<open>p\<close> in a horizontal line, a
  vertical line or a diagonal line of either direction.
\<close>

theorem findWinningCells_nonempty_iff_four:
  assumes "is6x7 b"
  shows "\<exists>cells. findWinningCells b (Some p) = Inr cells \<and>
           (cells \<noteq> [] \<longleftrightarrow> fourConsecutive b p)"
proof -
  let ?f = "find (lineHolds b (Some p)) allLines"
  from assms have "6 \<le> length b"
    by (simp add: is6x7_def)
  then have eq: "findWinningCells b (Some p) =
      Inr (case ?f of None \<Rightarrow> [] | Some line \<Rightarrow> line)"
    by (rule findWinningCells_total)
  show ?thesis
  proof (cases ?f)
    case None
    then have "\<not> fourConsecutive b p"
      by (simp add: fourConsecutive_iff_lines find_None_iff')
    with eq None show ?thesis by simp
  next
    case (Some line)
    then have "line \<in> set allLines" "lineHolds b (Some p) line"
      by (auto simp: find_Some_iff)
    moreover from this have "line \<noteq> []" using allLines_shape by fastforce
    ultimately show ?thesis using eq Some
      by (auto simp: fourConsecutive_iff_lines)
  qed
qed

theorem findWinningCells_nonempty_iff_four_witness:
  "is6x7 (replicate 5 (replicate 7 None) @ [[Some Ai, Some Ai, Some Ai, Some Ai, None, None, None]]) \<and>
   findWinningCells
     (replicate 5 (replicate 7 None) @ [[Some Ai, Some Ai, Some Ai, Some Ai, None, None, None]])
     (Some Ai) = Inr [(5, 0), (5, 1), (5, 2), (5, 3)] \<and>
   fourConsecutive
     (replicate 5 (replicate 7 None) @ [[Some Ai, Some Ai, Some Ai, Some Ai, None, None, None]])
     Ai"
proof -
  let ?b = "replicate 5 (replicate 7 None) @
      [[Some Ai, Some Ai, Some Ai, Some Ai, None, None, None]]"
  have h: "is6x7 ?b"
    by (simp add: is6x7_def list_all_iff)
  have e: "findWinningCells ?b (Some Ai) = Inr [(5, 0), (5, 1), (5, 2), (5, 3)]"
    by code_simp
  from findWinningCells_nonempty_iff_four[OF h, of Ai] e have "fourConsecutive ?b Ai"
    by auto
  with h e show ?thesis by (intro conjI)
qed

text \<open>
  Claim C7. Whatever the board and the piece \<open>w\<close>: a result of \<open>findWinningCells\<close> is
  the empty list or a list of exactly four coordinates, each \<open>(r, c)\<close> with \<open>r < 6\<close>,
  \<open>c < 7\<close> and \<open>b[r][c] = w\<close>; for \<open>w = null\<close> the result is the empty list; and on a
  board that has its six rows the function does return (no read of a missing row).
\<close>

theorem findWinningCells_result_shape:
  "(6 \<le> length b \<longrightarrow> (\<exists>cells. findWinningCells b w = Inr cells)) \<and>
   (\<forall>cells. findWinningCells b w = Inr cells \<longrightarrow>
      (cells = [] \<or> length cells = 4) \<and>
      (\<forall>(r, c)\<in>set cells. r < 6 \<and> c < 7 \<and> cellAt b r c = Inr (Some w))) \<and>
   findWinningCells b None = Inr []"
proof (intro conjI allI impI)
  assume "6 \<le> length b"
  then show "\<exists>cells. findWinningCells b w = Inr cells"
    by (cases w) (simp_all add: findWinningCells_total, simp add: findWinningCells_def)
next
  fix cells assume r: "findWinningCells b w = Inr cells"
  from findWinningCells_returned[OF r] allLines_shape[of cells]
  show "cells = [] \<or> length cells = 4" by blast
  from findWinningCells_returned[OF r] allLines_shape[of cells]
  show "\<forall>(r, c)\<in>set cells. r < 6 \<and> c < 7 \<and> cellAt b r c = Inr (Some w)"
    by (auto simp: lineHolds_def list_all_iff)
next
  show "findWinningCells b None = Inr []"
    by (simp add: findWinningCells_def)
qed

theorem findWinningCells_result_shape_witness:
  "6 \<le> length (replicate 6 (replicate 7 (Some Player))) \<and>
   findWinningCells (replicate 6 (replicate 7 (Some Player))) (Some Player)
     = Inr [(0, 0), (0, 1), (0, 2), (0, 3)] \<and>
   length [(0 :: nat, 0 :: nat), (0, 1), (0, 2), (0, 3)] = 4 \<and>
   cellAt (replicate 6 (replicate 7 (Some Player))) 0 3 = Inr (Some (Some Player))"
proof -
  let ?b = "replicate 6 (replicate 7 (Some Player))"
  have h: "6 \<le> length ?b" by simp
  have e: "findWinningCells ?b (Some Player) = Inr [(0, 0), (0, 1), (0, 2), (0, 3)]"
    by code_simp
  from findWinningCells_result_shape[of ?b "Some Player"] e
  have "\<forall>(r, c)\<in>set [(0, 0), (0, 1), (0, 2), (0 :: nat, 3 :: nat)].
      r < 6 \<and> c < 7 \<and> cellAt ?b r c = Inr (Some (Some Player))"
    by blast
  then have "cellAt ?b 0 3 = Inr (Some (Some Player))" by simp
  with h e show ?thesis by simp
qed

subsection \<open>Boards\<close>

text \<open>
  Claim C6. \<open>createEmptyBoard\<close> returns a board of exactly six rows of exactly seven
  cells, every one of them \<open>null\<close>; and a cell of a UI board is one of exactly three
  values: \<open>null\<close>, \<open>"player"\<close>, \<open>"ai"\<close>.
\<close>

theorem createEmptyBoard_empty_6x7:
  "length createEmptyBoard = 6 \<and>
   (\<forall>r<6. length (createEmptyBoard ! r) = 7 \<and> (\<forall>c<7. createEmptyBoard ! r ! c = None)) \<and>
   (UNIV :: cell set) = {None, Some Player, Some Ai} \<and>
   card (UNIV :: cell set) = 3"
proof -
  have u: "(UNIV :: cell set) = {None, Some Player, Some Ai}"
  proof -
    have "x \<in> {None, Some Player, Some Ai}" for x :: cell
      by (cases x) (auto intro: piece.exhaust)
    then show ?thesis by blast
  qed
  have "card {None, Some Player, Some Ai} = 3" by simp
  with u show ?thesis
    by (simp add: createEmptyBoard_def ROWS_def COLS_def)
qed

theorem createEmptyBoard_empty_6x7_witness:
  "(2::nat) < 6 \<and> (4::nat) < 7 \<and> length (createEmptyBoard ! 2) = 7 \<and>
   createEmptyBoard ! 2 ! 4 = None"
  using createEmptyBoard_empty_6x7 by simp

text \<open>
  Claim C8. \<open>convertBoard\<close> keeps the number of rows and the length of every row, and
  the cell at each position depends on the API cell at that position alone: \<open>0\<close> gives
  \<open>null\<close>, a cell equal to \<open>humanPlayer\<close> gives \<open>"player"\<close>, any other value \<open>"ai"\<close>.
\<close>

theorem convertBoard_pointwise:
  "length (convertBoard apiBoard humanPlayer) = length apiBoard \<and>
   (\<forall>r<length apiBoard.
      length (convertBoard apiBoard humanPlayer ! r) = length (apiBoard ! r) \<and>
      (\<forall>c<length (apiBoard ! r).
         convertBoard apiBoard humanPlayer ! r ! c =
           (if apiBoard ! r ! c = 0 then None
            else if apiBoard ! r ! c = humanPlayer then Some Player
            else Some Ai)))"
  by (simp add: convertBoard_def convertCell_def)

theorem convertBoard_pointwise_witness:
  "(1::nat) < length [[0, 1, 2], [2, 0, 1 :: int]] \<and>
   (2::nat) < length ([[0, 1, 2], [2, 0, 1 :: int]] ! 1) \<and>
   length (convertBoard [[0, 1, 2], [2, 0, 1]] 1) = 2 \<and>
   length (convertBoard [[0, 1, 2], [2, 0, 1]] 1 ! 1) = 3 \<and>
   convertBoard [[0, 1, 2], [2, 0, 1]] 1 ! 1 ! 2 = Some Player"
proof -
  have h: "(1::nat) < length [[0, 1, 2], [2, 0, 1 :: int]]"
    "(2::nat) < length ([[0, 1, 2], [2, 0, 1 :: int]] ! 1)"
    by simp_all
  from convertBoard_pointwise[of "[[0, 1, 2], [2, 0, 1]]" 1] h
  have "length (convertBoard [[0, 1, 2], [2, 0, 1]] 1) = 2"
    "length (convertBoard [[0, 1, 2], [2, 0, 1]] 1 ! 1) = 3"
    "convertBoard [[0, 1, 2], [2, 0, 1]] 1 ! 1 ! 2 = Some Player"
    by simp_all
  with h show ?thesis by simp
qed

subsection \<open>Starting over\<close>

text \<open>
  Claim C9. \<open>resetGame\<close> is \<open>initGame\<close>, and when \<open>initGame\<close> issues its request the
  board is the empty board of six rows of seven \<open>null\<close> cells, \<open>winningCells\<close> is empty,
  \<open>errorMessage\<close> is \<open>null\<close> and \<open>aiFirst\<close> is \<open>false\<close>, whatever the state was.
\<close>

theorem resetGame_clears_before_request:
  "resetGame s net = initGame s net \<and>
   board (at_request (resetGame s net)) = createEmptyBoard \<and>
   board (at_request (resetGame s net)) = replicate 6 (replicate 7 None) \<and>
   winningCells (at_request (resetGame s net)) = [] \<and>
   errorMessage (at_request (resetGame s net)) = None \<and>
   aiFirst (at_request (resetGame s net)) = False"
  by (simp add: resetGame_def initGame_def initGame_begin_def createEmptyBoard_def
      ROWS_def COLS_def)

subsection \<open>The exploration schedule\<close>

text \<open>
  Claim C10. For a schedule that decays from \<open>epsilon_start\<close> down to \<open>epsilon_end\<close>
  (\<open>epsilon_end \<le> epsilon_start\<close>) over a positive number of steps, epsilon is the
  clamped linear formula at every step, equals \<open>epsilon_start\<close> at step \<open>0\<close> and
  \<open>epsilon_end\<close> at step \<open>decay_steps\<close>, and never increases with the step.
\<close>

theorem epsilon_linear_clamped:
  assumes "epsilon_end \<le> epsilon_start" and "0 < decay_steps"
  shows "(\<forall>t. epsilon epsilon_start epsilon_end decay_steps t =
            max epsilon_end
              (epsilon_start - real t / real decay_steps * (epsilon_start - epsilon_end))) \<and>
         epsilon epsilon_start epsilon_end decay_steps 0 = epsilon_start \<and>
         epsilon epsilon_start epsilon_end decay_steps decay_steps = epsilon_end \<and>
         (\<forall>t t'. t \<le> t' \<longrightarrow>
            epsilon epsilon_start epsilon_end decay_steps t'
              \<le> epsilon epsilon_start epsilon_end decay_steps t)"
proof (intro conjI allI impI)
  fix t
  show "epsilon epsilon_start epsilon_end decay_steps t =
      max epsilon_end
        (epsilon_start - real t / real decay_steps * (epsilon_start - epsilon_end))"
    by (simp add: epsilon_def)
next
  from assms(1) show "epsilon epsilon_start epsilon_end decay_steps 0 = epsilon_start"
    by (simp add: epsilon_def)
next
  from assms(2) show "epsilon epsilon_start epsilon_end decay_steps decay_steps = epsilon_end"
    by (simp add: epsilon_def)
next
  fix t t' :: nat
  assume le: "t \<le> t'"
  with assms(2) have "real t / real decay_steps \<le> real t' / real decay_steps"
    by (simp add: divide_right_mono)
  with assms(1)
  have "real t / real decay_steps * (epsilon_start - epsilon_end)
      \<le> real t' / real decay_steps * (epsilon_start - epsilon_end)"
    by (intro mult_right_mono) simp_all
  then show "epsilon epsilon_start epsilon_end decay_steps t'
      \<le> epsilon epsilon_start epsilon_end decay_steps t"
    unfolding epsilon_def by (intro max.mono) simp_all
qed

theorem epsilon_linear_clamped_witness:
  "(1 / 10 :: real) \<le> 1 \<and> (0::nat) < 100 \<and>
   epsilon 1 (1 / 10) 100 0 = 1 \<and>
   epsilon 1 (1 / 10) 100 100 = 1 / 10 \<and>
   epsilon 1 (1 / 10) 100 60 \<le> epsilon 1 (1 / 10) 100 40"
proof -
  have h: "(1 / 10 :: real) \<le> 1" "(0::nat) < 100" by simp_all
  from epsilon_linear_clamped[OF h] h show ?thesis by simp
qed

subsection \<open>Moves\<close>

lemma readyState_request:
  "request (makeMove 3 readyState net) = Some \<lparr>req_session_id = ''s1'', column = 3\<rparr>"
  by (simp add: makeMove_def readyState_def truthySession_def cellAt_def jsIndex_def
      createEmptyBoard_def ROWS_def COLS_def)

lemma makeMove_request_iff:
  "request (makeMove col s net) \<noteq> None \<longleftrightarrow>
   \<not> boardDisabled s \<and> truthySession s \<noteq> None \<and> cellAt (board s) 0 col = Inr (Some None)"
proof (cases "boardDisabled s")
  case True
  then show ?thesis by (simp add: makeMove_def boardDisabled_def)
next
  case enabled: False
  show ?thesis
  proof (cases "truthySession s")
    case None
    with enabled show ?thesis by (simp add: makeMove_def boardDisabled_def)
  next
    case (Some sid)
    show ?thesis
    proof (cases "cellAt (board s) 0 col")
      case (Inl e)
      with enabled Some show ?thesis by (simp add: makeMove_def boardDisabled_def)
    next
      case (Inr v)
      with enabled Some show ?thesis
        by (cases "v = Some None") (simp_all add: makeMove_def boardDisabled_def)
    qed
  qed
qed

lemma makeMove_no_request:
  assumes "request (makeMove col s net) = None"
  shows "final (makeMove col s net) = s"
proof (cases "boardDisabled s")
  case True
  then show ?thesis by (simp add: makeMove_def boardDisabled_def)
next
  case enabled: False
  show ?thesis
  proof (cases "truthySession s")
    case None
    with enabled show ?thesis by (simp add: makeMove_def boardDisabled_def)
  next
    case (Some sid)
    show ?thesis
    proof (cases "cellAt (board s) 0 col")
      case (Inl e)
      with enabled Some show ?thesis by (simp add: makeMove_def boardDisabled_def)
    next
      case (Inr v)
      with enabled Some assms show ?thesis
        by (cases "v = Some None") (simp_all add: makeMove_def boardDisabled_def)
    qed
  qed
qed

lemma makeMove_not_thrown:
  assumes "board s \<noteq> []"
  shows "thrown (makeMove col s net) = None"
proof -
  from assms obtain v where v: "cellAt (board s) 0 col = Inr v"
    by (auto simp: cellAt_def jsIndex_def)
  show ?thesis
  proof (cases "boardDisabled s")
    case True
    then show ?thesis by (simp add: makeMove_def boardDisabled_def)
  next
    case enabled: False
    show ?thesis
    proof (cases "truthySession s")
      case None
      with enabled show ?thesis by (simp add: makeMove_def boardDisabled_def)
    next
      case (Some sid)
      with enabled v show ?thesis
        by (cases "v = Some None") (simp_all add: makeMove_def boardDisabled_def)
    qed
  qed
qed

lemma makeMove_request_final:
  assumes "request (makeMove col s net) \<noteq> None"
  shows "final (makeMove col s net) = makeMove_finish net (s\<lparr>isThinking := True\<rparr>)"
proof -
  from assms makeMove_request_iff[of col s net]
  have a: "\<not> boardDisabled s" "truthySession s \<noteq> None"
    "cellAt (board s) 0 col = Inr (Some None)"
    by blast+
  then obtain sid where "truthySession s = Some sid" by blast
  with a show ?thesis by (simp add: makeMove_def boardDisabled_def)
qed

text \<open>
  Claim C2. \<open>makeMove(col)\<close> sends a request only when \<open>board[0][col]\<close> is \<open>null\<close>; when
  it is anything else no request is sent and the state stays as it was (and on a board
  with a first row the call returns rather than throws); the drop button of a column
  whose top cell holds a piece is disabled. While the human may move and a session is
  open, a free top cell does give a request and an enabled button.
\<close>

theorem makeMove_needs_free_top_cell:
  "(request (makeMove col s net) \<noteq> None \<longrightarrow> cellAt (board s) 0 col = Inr (Some None)) \<and>
   (cellAt (board s) 0 col \<noteq> Inr (Some None) \<longrightarrow>
      request (makeMove col s net) = None \<and> final (makeMove col s net) = s \<and>
      (board s \<noteq> [] \<longrightarrow> thrown (makeMove col s net) = None)) \<and>
   (\<forall>p. cellAt (board s) 0 col = Inr (Some (Some p)) \<longrightarrow>
      dropButtonDisabled disabled (board s) col = Inr True) \<and>
   (\<not> boardDisabled s \<and> truthySession s \<noteq> None \<and> cellAt (board s) 0 col = Inr (Some None) \<longrightarrow>
      request (makeMove col s net) \<noteq> None \<and>
      dropButtonDisabled (boardDisabled s) (board s) col = Inr False)"
proof (intro conjI impI allI)
  assume "request (makeMove col s net) \<noteq> None"
  then show "cellAt (board s) 0 col = Inr (Some None)"
    using makeMove_request_iff[of col s net] by blast
next
  assume a: "cellAt (board s) 0 col \<noteq> Inr (Some None)"
  then show n: "request (makeMove col s net) = None"
    using makeMove_request_iff[of col s net] by blast
  then show "final (makeMove col s net) = s"
    by (rule makeMove_no_request)
  assume "board s \<noteq> []"
  then show "thrown (makeMove col s net) = None"
    by (rule makeMove_not_thrown)
next
  fix p assume "cellAt (board s) 0 col = Inr (Some (Some p))"
  then show "dropButtonDisabled disabled (board s) col = Inr True"
    by (simp add: dropButtonDisabled_def)
next
  assume a: "\<not> boardDisabled s \<and> truthySession s \<noteq> None \<and>
    cellAt (board s) 0 col = Inr (Some None)"
  then show "request (makeMove col s net) \<noteq> None"
    using makeMove_request_iff[of col s net] by blast
  from a show "dropButtonDisabled (boardDisabled s) (board s) col = Inr False"
    by (simp add: dropButtonDisabled_def)
qed

theorem makeMove_needs_free_top_cell_witness:
  "request (makeMove 3 readyState FetchRejectedOther) \<noteq> None \<and>
   cellAt (board readyState) 0 3 = Inr (Some None) \<and>
   cellAt (board (readyState\<lparr>board := replicate 6 (replicate 7 (Some Ai))\<rparr>)) 0 3
     = Inr (Some (Some Ai)) \<and>
   request (makeMove 3 (readyState\<lparr>board := replicate 6 (replicate 7 (Some Ai))\<rparr>) FetchRejectedOther) = None \<and>
   final (makeMove 3 (readyState\<lparr>board := replicate 6 (replicate 7 (Some Ai))\<rparr>) FetchRejectedOther)
     = readyState\<lparr>board := replicate 6 (replicate 7 (Some Ai))\<rparr> \<and>
   dropButtonDisabled False
     (board (readyState\<lparr>board := replicate 6 (replicate 7 (Some Ai))\<rparr>)) 3 = Inr True"
proof -
  let ?full = "readyState\<lparr>board := replicate 6 (replicate 7 (Some Ai))\<rparr>"
  have r: "request (makeMove 3 readyState FetchRejectedOther) \<noteq> None"
    by (simp add: readyState_request)
  have o: "cellAt (board ?full) 0 3 = Inr (Some (Some Ai))"
    by (simp add: cellAt_def jsIndex_def)
  note t1 = makeMove_needs_free_top_cell[of 3 readyState FetchRejectedOther]
  note t2 = makeMove_needs_free_top_cell[of 3 ?full FetchRejectedOther False]
  have 1: "cellAt (board readyState) 0 3 = Inr (Some None)"
    by (rule t1[THEN conjunct1, THEN mp, OF r])
  have n: "cellAt (board ?full) 0 3 \<noteq> Inr (Some None)"
    by (simp add: cellAt_def jsIndex_def)
  note t3 = t2[THEN conjunct2, THEN conjunct1, THEN mp, OF n]
  have 2: "request (makeMove 3 ?full FetchRejectedOther) = None" "final (makeMove 3 ?full FetchRejectedOther) = ?full"
    by (rule t3[THEN conjunct1], rule t3[THEN conjunct2, THEN conjunct1])
  have 3: "dropButtonDisabled False (board ?full) 3 = Inr True"
    by (rule t2[THEN conjunct2, THEN conjunct2, THEN conjunct1, THEN spec, THEN mp, OF o])
  from r o 1 2 3 show ?thesis by (intro conjI)
qed

text \<open>
  Claim C4. When the game is over (status \<open>"won"\<close>, \<open>"lost"\<close> or \<open>"draw"\<close>), or it is
  not the human player's turn, or a request is in flight (\<open>isThinking\<close>), \<open>makeMove(col)\<close>
  does nothing for any column: no request is sent and the state, with its board, status,
  current turn and winning cells, is what it was.
\<close>

theorem makeMove_blocked_is_noop:
  assumes "status s \<in> {Won, Lost, Draw} \<or> currentTurn s \<noteq> Player \<or> isThinking s"
  shows "request (makeMove col s net) = None \<and> thrown (makeMove col s net) = None \<and>
         final (makeMove col s net) = s \<and>
         board (final (makeMove col s net)) = board s \<and>
         status (final (makeMove col s net)) = status s \<and>
         currentTurn (final (makeMove col s net)) = currentTurn s \<and>
         winningCells (final (makeMove col s net)) = winningCells s"
proof -
  from assms have "status s \<noteq> Playing \<or> currentTurn s \<noteq> Player \<or> isThinking s"
    by auto
  then have "makeMove col s net = \<lparr>thrown = None, request = None, final = s\<rparr>"
    by (simp add: makeMove_def)
  then show ?thesis by simp
qed

theorem makeMove_blocked_is_noop_witness:
  "(status (readyState\<lparr>status := Won\<rparr>) \<in> {Won, Lost, Draw} \<or>
    currentTurn (readyState\<lparr>status := Won\<rparr>) \<noteq> Player \<or>
    isThinking (readyState\<lparr>status := Won\<rparr>)) \<and>
   request (makeMove 3 (readyState\<lparr>status := Won\<rparr>) FetchRejectedOther) = None \<and>
   final (makeMove 3 (readyState\<lparr>status := Won\<rparr>) FetchRejectedOther) = readyState\<lparr>status := Won\<rparr>"
proof -
  have h: "status (readyState\<lparr>status := Won\<rparr>) \<in> {Won, Lost, Draw} \<or>
    currentTurn (readyState\<lparr>status := Won\<rparr>) \<noteq> Player \<or>
    isThinking (readyState\<lparr>status := Won\<rparr>)"
    by simp
  from makeMove_blocked_is_noop[OF h, of 3 FetchRejectedOther] h show ?thesis by blast
qed

text \<open>
  Claim C5. When the request of a move fails (the \<open>fetch\<close> rejects, the response is not
  ok, or its body cannot be read), the board, the status, the current turn and the
  winning cells are what they were, \<open>errorMessage\<close> holds a string and \<open>isThinking\<close> is
  \<open>false\<close> at the end.
\<close>

theorem makeMove_failure_keeps_game_state:
  assumes "requestFailed net" and "request (makeMove col s net) \<noteq> None"
  shows "board (final (makeMove col s net)) = board s \<and>
         status (final (makeMove col s net)) = status s \<and>
         currentTurn (final (makeMove col s net)) = currentTurn s \<and>
         winningCells (final (makeMove col s net)) = winningCells s \<and>
         (\<exists>msg. errorMessage (final (makeMove col s net)) = Some msg) \<and>
         isThinking (final (makeMove col s net)) = False"
proof -
  from assms(2) have "final (makeMove col s net) = makeMove_finish net (s\<lparr>isThinking := True\<rparr>)"
    by (rule makeMove_request_final)
  moreover from assms(1) have "\<exists>msg. makeMove_finish net (s\<lparr>isThinking := True\<rparr>) =
      makeMove_catch msg (s\<lparr>isThinking := True\<rparr>)"
    by (cases net) (simp_all add: requestFailed_def makeMove_finish_def, blast+)
  ultimately show ?thesis
    by (auto simp: makeMove_catch_def)
qed

theorem makeMove_failure_keeps_game_state_witness:
  "requestFailed (NotOk (Some ''Column is full'') ''Bad Request'') \<and>
   request (makeMove 3 readyState (NotOk (Some ''Column is full'') ''Bad Request'')) \<noteq> None \<and>
   board (final (makeMove 3 readyState (NotOk (Some ''Column is full'') ''Bad Request'')))
     = board readyState \<and>
   status (final (makeMove 3 readyState (NotOk (Some ''Column is full'') ''Bad Request'')))
     = status readyState \<and>
   isThinking (final (makeMove 3 readyState (NotOk (Some ''Column is full'') ''Bad Request'')))
     = False"
proof -
  have h: "requestFailed (NotOk (Some ''Column is full'') ''Bad Request'')"
    "request (makeMove 3 readyState (NotOk (Some ''Column is full'') ''Bad Request'')) \<noteq> None"
    by (simp_all add: requestFailed_def readyState_request)
  from makeMove_failure_keeps_game_state[OF h] h show ?thesis by blast
qed

text \<open>
  Claim C3. After a move whose response is read (\<open>ok\<close>, with body \<open>data\<close>): if
  \<open>data.game_over\<close>, the status is \<open>"draw"\<close> when \<open>data.winner = 3\<close>, else \<open>"won"\<close> when
  \<open>data.winner = data.human_player\<close>, else \<open>"lost"\<close>; if not, the status stays
  \<open>"playing"\<close>, the turn goes to whoever \<open>data.current_player\<close> names, and of the other
  cells of the state only the board (set from the response before the status is looked
  at) is written.
\<close>

theorem makeMove_status_after_response:
  assumes "request (makeMove col s (OkBody data)) \<noteq> None"
  shows "(game_over data \<longrightarrow>
            status (final (makeMove col s (OkBody data))) \<in> {Draw, Won, Lost} \<and>
            status (final (makeMove col s (OkBody data))) =
              (if winner data = Some 3 then Draw
               else if winner data = Some (human_player data) then Won
               else Lost)) \<and>
         (\<not> game_over data \<longrightarrow>
            status (final (makeMove col s (OkBody data))) = Playing \<and>
            status (final (makeMove col s (OkBody data))) = status s \<and>
            currentTurn (final (makeMove col s (OkBody data))) =
              (if current_player data = human_player data then Player else Ai) \<and>
            board (final (makeMove col s (OkBody data))) =
              convertBoard (api_board data) (human_player data) \<and>
            winningCells (final (makeMove col s (OkBody data))) = winningCells s \<and>
            errorMessage (final (makeMove col s (OkBody data))) = errorMessage s \<and>
            aiFirst (final (makeMove col s (OkBody data))) = aiFirst s \<and>
            isThinking (final (makeMove col s (OkBody data))) = isThinking s)"
proof -
  from assms makeMove_request_iff[of col s "OkBody data"] have "\<not> boardDisabled s"
    by blast
  then have g: "status s = Playing" "\<not> isThinking s"
    by (simp_all add: boardDisabled_def)
  from assms
  have f: "final (makeMove col s (OkBody data)) = makeMove_apply data (s\<lparr>isThinking := True\<rparr>)"
    by (simp add: makeMove_request_final makeMove_finish_def)
  show ?thesis
    unfolding f using g
    by (auto simp: makeMove_apply_def makeMove_catch_def Let_def split: sum.splits)
qed

theorem makeMove_status_after_response_witness:
  "request (makeMove 3 readyState (OkBody drawResponse)) \<noteq> None \<and>
   game_over drawResponse \<and>
   status (final (makeMove 3 readyState (OkBody drawResponse))) = Draw \<and>
   request (makeMove 3 readyState (OkBody (drawResponse\<lparr>game_over := False\<rparr>))) \<noteq> None \<and>
   \<not> game_over (drawResponse\<lparr>game_over := False\<rparr>) \<and>
   status (final (makeMove 3 readyState (OkBody (drawResponse\<lparr>game_over := False\<rparr>)))) = Playing \<and>
   currentTurn (final (makeMove 3 readyState (OkBody (drawResponse\<lparr>game_over := False\<rparr>))))
     = Player"
proof -
  have h: "request (makeMove 3 readyState (OkBody drawResponse)) \<noteq> None"
    "request (makeMove 3 readyState (OkBody (drawResponse\<lparr>game_over := False\<rparr>))) \<noteq> None"
    by (simp_all add: readyState_request)
  have g: "game_over drawResponse" "\<not> game_over (drawResponse\<lparr>game_over := False\<rparr>)"
    by (simp_all add: drawResponse_def)
  from makeMove_status_after_response[OF h(1)] g(1)
  have 1: "status (final (makeMove 3 readyState (OkBody drawResponse))) = Draw"
    by (simp add: drawResponse_def)
  from makeMove_status_after_response[OF h(2)] g(2)
  have 2: "status (final (makeMove 3 readyState (OkBody (drawResponse\<lparr>game_over := False\<rparr>))))
      = Playing"
    "currentTurn (final (makeMove 3 readyState (OkBody (drawResponse\<lparr>game_over := False\<rparr>))))
      = Player"
    by (simp_all add: drawResponse_def)
  from h g 1 2 show ?thesis by blast
qed

end
